theory Spec2Isabelle
  imports Complex_Main
begin

section \<open>The ModifiedLog scale of Plottable (src/scales/modifiedLogScale.ts)\<close>

text \<open>
  The arithmetic of the source is modelled exactly: a finite JavaScript number is a
  real, and the rounding of IEEE doubles is not modelled. The values that the tick
  generator can compute beyond the finite numbers (NaN, the two infinities and the
  negative zero, from a division by zero or the logarithm of a number that is not
  positive) are values of \<open>jsnum\<close>, with the arithmetic of JavaScript on them. The
  errors are the exceptions that the source and d3 throw.
\<close>

datatype error =
  InvalidParameter  \<comment> \<open>\<open>throw new Error("ModifiedLogScale: The base must be > 1")\<close>\<close>
| InfiniteRange     \<comment> \<open>\<open>throw new Error("infinite range")\<close> of \<open>d3.range\<close>\<close>
| Unbounded         \<comment> \<open>the loop of \<open>d3.range\<close> never ends\<close>

subsection \<open>JavaScript numbers that need not be finite\<close>

text \<open>
  \<open>Fin r\<close> is the finite number \<open>r\<close>, \<open>Fin 0\<close> the positive zero and \<open>NegZero\<close> the
  negative one. The operations follow IEEE 754 as JavaScript has it, except that a
  finite result is exact.
\<close>

datatype jsnum = Fin real | NegZero | PInf | NInf | NaN

fun sign_bit :: "jsnum \<Rightarrow> bool" where
  "sign_bit (Fin r) = (r < 0)"
| "sign_bit NegZero = True"
| "sign_bit PInf = False"
| "sign_bit NInf = True"
| "sign_bit NaN = False"

fun val :: "jsnum \<Rightarrow> real" where
  "val (Fin r) = r"
| "val NegZero = 0"
| "val PInf = 0"
| "val NInf = 0"
| "val NaN = 0"

fun is_zero :: "jsnum \<Rightarrow> bool" where
  "is_zero (Fin r) = (r = 0)"
| "is_zero NegZero = True"
| "is_zero PInf = False"
| "is_zero NInf = False"
| "is_zero NaN = False"

fun is_inf :: "jsnum \<Rightarrow> bool" where
  "is_inf (Fin r) = False"
| "is_inf NegZero = False"
| "is_inf PInf = True"
| "is_inf NInf = True"
| "is_inf NaN = False"

fun is_fin :: "jsnum \<Rightarrow> bool" where
  "is_fin (Fin r) = True"
| "is_fin NegZero = True"
| "is_fin PInf = False"
| "is_fin NInf = False"
| "is_fin NaN = False"

definition zero_of :: "bool \<Rightarrow> jsnum" where
  "zero_of negative = (if negative then NegZero else Fin 0)"

definition inf_of :: "bool \<Rightarrow> jsnum" where
  "inf_of negative = (if negative then NInf else PInf)"

definition finite_of :: "real \<Rightarrow> bool \<Rightarrow> jsnum" where
  "finite_of r negative = (if r = 0 then zero_of negative else Fin r)"

definition js_neg :: "jsnum \<Rightarrow> jsnum" where
  "js_neg a = (case a of Fin r \<Rightarrow> finite_of (- r) (\<not> r < 0) | NegZero \<Rightarrow> Fin 0
               | PInf \<Rightarrow> NInf | NInf \<Rightarrow> PInf | NaN \<Rightarrow> NaN)"

definition js_add :: "jsnum \<Rightarrow> jsnum \<Rightarrow> jsnum" where
  "js_add a b =
     (if a = NaN \<or> b = NaN then NaN
      else if (a = PInf \<and> b = NInf) \<or> (a = NInf \<and> b = PInf) then NaN
      else if is_inf a then a
      else if is_inf b then b
      else finite_of (val a + val b) (sign_bit a \<and> sign_bit b))"

definition js_sub :: "jsnum \<Rightarrow> jsnum \<Rightarrow> jsnum" where
  "js_sub a b = js_add a (js_neg b)"

definition js_mul :: "jsnum \<Rightarrow> jsnum \<Rightarrow> jsnum" where
  "js_mul a b =
     (if a = NaN \<or> b = NaN then NaN
      else if (is_inf a \<and> is_zero b) \<or> (is_zero a \<and> is_inf b) then NaN
      else if is_inf a \<or> is_inf b then inf_of (sign_bit a \<noteq> sign_bit b)
      else finite_of (val a * val b) (sign_bit a \<noteq> sign_bit b))"

definition js_div :: "jsnum \<Rightarrow> jsnum \<Rightarrow> jsnum" where
  "js_div a b =
     (if a = NaN \<or> b = NaN then NaN
      else if (is_inf a \<and> is_inf b) \<or> (is_zero a \<and> is_zero b) then NaN
      else if is_inf a \<or> is_zero b then inf_of (sign_bit a \<noteq> sign_bit b)
      else if is_inf b then zero_of (sign_bit a \<noteq> sign_bit b)
      else finite_of (val a / val b) (sign_bit a \<noteq> sign_bit b))"

definition js_lt :: "jsnum \<Rightarrow> jsnum \<Rightarrow> bool" where
  "js_lt a b =
     (if a = NaN \<or> b = NaN then False
      else if a = PInf \<or> b = NInf then False
      else if a = NInf \<or> b = PInf then True
      else val a < val b)"

definition js_ceil :: "jsnum \<Rightarrow> jsnum" where
  "js_ceil a = (case a of Fin r \<Rightarrow> finite_of (real_of_int \<lceil>r\<rceil>) (r < 0) | _ \<Rightarrow> a)"

definition js_floor :: "jsnum \<Rightarrow> jsnum" where
  "js_floor a = (case a of Fin r \<Rightarrow> Fin (real_of_int \<lfloor>r\<rfloor>) | _ \<Rightarrow> a)"

text \<open>\<open>Math.log\<close> of a finite number.\<close>

definition Math_log :: "real \<Rightarrow> jsnum" where
  "Math_log x = (if 0 < x then Fin (ln x) else if x = 0 then NInf else NaN)"

subsection \<open>The linear adapter (d3.scale.linear)\<close>

text \<open>
  Modelled from the spec: the linear mapping primitive (\<open>d3.scale.linear\<close>, an external
  collaborator that is not part of the sources): "an owned linear mapping:
  transformed-domain <-> output-range, with inverse", with \<open>map\<close>, \<open>invert\<close> and
  \<open>setDomain\<close>. The mapping is the affine interpolation between the two domain
  endpoints and the two range endpoints; on a zero-width input interval d3 divides by
  an infinity, so every value is sent to the first endpoint of the output interval.
  A new linear scale has domain [0, 1] and range [0, 1].
\<close>

record linear =
  lin_domain :: "real \<times> real"
  lin_range :: "real \<times> real"

definition d3_scale_linear :: linear where
  "d3_scale_linear = \<lparr>lin_domain = (0, 1), lin_range = (0, 1)\<rparr>"

definition d3_uninterpolate :: "real \<Rightarrow> real \<Rightarrow> real \<Rightarrow> real" where
  "d3_uninterpolate a b x = (if b - a = 0 then 0 else (x - a) / (b - a))"

definition d3_interpolate :: "real \<Rightarrow> real \<Rightarrow> real \<Rightarrow> real" where
  "d3_interpolate a b t = a * (1 - t) + b * t"

definition d3_apply :: "linear \<Rightarrow> real \<Rightarrow> real" where
  "d3_apply l x =
     d3_interpolate (fst (lin_range l)) (snd (lin_range l))
       (d3_uninterpolate (fst (lin_domain l)) (snd (lin_domain l)) x)"

definition d3_invert :: "linear \<Rightarrow> real \<Rightarrow> real" where
  "d3_invert l y =
     d3_interpolate (fst (lin_domain l)) (snd (lin_domain l))
       (d3_uninterpolate (fst (lin_range l)) (snd (lin_range l)) y)"

definition d3_domain :: "linear \<Rightarrow> real \<times> real \<Rightarrow> linear" where
  "d3_domain l d = l\<lparr>lin_domain := d\<rparr>"

subsection \<open>The scale object\<close>

text \<open>
  The fields of \<open>Scale.ModifiedLog\<close>. \<open>untransformedDomain\<close> is the two-element array
  \<open>[lo, hi]\<close> as a pair, in the order it was given. \<open>lastRequestedTickCount\<close> and
  \<open>d3Scale\<close> are the inherited fields \<open>_lastRequestedTickCount\<close> and \<open>_d3Scale\<close>;
  \<open>broadcasts\<close> counts the calls of \<open>this.broadcaster.broadcast()\<close>.
\<close>

record ModifiedLog =
  base :: real
  pivot :: real
  untransformedDomain :: "real \<times> real"
  lastRequestedTickCount :: int
  d3Scale :: linear
  broadcasts :: nat

text \<open>
  The constructor, \<open>constructor(base = 10)\<close>: an omitted argument is \<open>None\<close>.
  \<open>defaultExtent\<close> is the value of the inherited \<open>_defaultExtent()\<close>, which is not part
  of the sources and is taken as a parameter. The fields are assigned first and the base
  is checked last; when the check throws, no object is returned.
\<close>

definition construct :: "real \<times> real \<Rightarrow> real option \<Rightarrow> error + ModifiedLog" where
  "construct defaultExtent base_arg =
     (let b = (case base_arg of None \<Rightarrow> 10 | Some v \<Rightarrow> v);
          this = \<lparr>base = b, pivot = b, untransformedDomain = defaultExtent,
                  lastRequestedTickCount = 10, d3Scale = d3_scale_linear,
                  broadcasts = 0\<rparr>
      in if b \<le> 1 then Inl InvalidParameter else Inr this)"

subsection \<open>The transform\<close>

definition adjustedLog :: "ModifiedLog \<Rightarrow> real \<Rightarrow> real" where
  "adjustedLog this x0 =
     (let negationFactor = (if x0 < 0 then - 1 else 1);
          x1 = x0 * negationFactor;
          x2 = (if x1 < pivot this then x1 + (pivot this - x1) / pivot this else x1);
          x3 = ln x2 / ln (base this)
      in x3 * negationFactor)"

definition invertedAdjustedLog :: "ModifiedLog \<Rightarrow> real \<Rightarrow> real" where
  "invertedAdjustedLog this x0 =
     (let negationFactor = (if x0 < 0 then - 1 else 1);
          x1 = x0 * negationFactor;
          x2 = base this powr x1;
          x3 = (if x2 < pivot this then (pivot this * (x2 - 1)) / (pivot this - 1) else x2)
      in x3 * negationFactor)"

definition scale :: "ModifiedLog \<Rightarrow> real \<Rightarrow> real" where
  "scale this x = d3_apply (d3Scale this) (adjustedLog this x)"

definition invert :: "ModifiedLog \<Rightarrow> real \<Rightarrow> real" where
  "invert this x = invertedAdjustedLog this (d3_invert (d3Scale this) x)"

subsection \<open>The domain manager\<close>

definition getDomain :: "ModifiedLog \<Rightarrow> real \<times> real" where
  "getDomain this = untransformedDomain this"

definition setDomain :: "ModifiedLog \<Rightarrow> real \<times> real \<Rightarrow> ModifiedLog" where
  "setDomain this values =
     (let this1 = this\<lparr>untransformedDomain := values\<rparr>;
          transformedDomain = (adjustedLog this1 (fst values), adjustedLog this1 (snd values));
          this2 = this1\<lparr>d3Scale := d3_domain (d3Scale this1) transformedDomain\<rparr>
      in this2\<lparr>broadcasts := Suc (broadcasts this2)\<rparr>)"

subsection \<open>The tick generator\<close>

text \<open>
  \<open>d3.min\<close> and \<open>d3.max\<close> of the two-element domain, and the median of three of
  \<open>ticks\<close> (\<open>[x, y, z].sort((a, b) => a - b)[1]\<close>).
\<close>

definition d3_min :: "real \<times> real \<Rightarrow> real" where
  "d3_min d = min (fst d) (snd d)"

definition d3_max :: "real \<times> real \<Rightarrow> real" where
  "d3_max d = max (fst d) (snd d)"

definition middle :: "real \<Rightarrow> real \<Rightarrow> real \<Rightarrow> real" where
  "middle x y z = sort [x, y, z] ! 1"

text \<open>
  \<open>d3.range(start, stop, step)\<close> of d3 version 3, which is not part of the sources:
  \<^verbatim>\<open>
  if ((stop - start) / step === Infinity) throw new Error("infinite range");
  var range = [], k = d3_range_integerScale(abs(step)), i = -1, j;
  start *= k, stop *= k, step *= k;
  if (step < 0) while ((j = start + step * ++i) > stop) range.push(j / k);
  else while ((j = start + step * ++i) < stop) range.push(j / k);
  return range;
  \<close>
  The factor \<open>k\<close> only lessens the rounding and is left out. When the first value
  \<open>j\<close> is not before \<open>stop\<close> (every comparison with NaN is false) the range is empty.
  With finite arguments and a step that is not zero the loop collects the
  \<open>ceil((stop - start) / step)\<close> values \<open>start + step * i\<close>; in every other case the
  value \<open>j\<close> stays before \<open>stop\<close> and the loop never ends.
\<close>

definition d3_range :: "jsnum \<Rightarrow> jsnum \<Rightarrow> jsnum \<Rightarrow> error + real list" where
  "d3_range start stop step =
     (if js_div (js_sub stop start) step = PInf then Inl InfiniteRange
      else
        (let j0 = js_add start (js_mul step (Fin 0));
             before_stop = (if js_lt step (Fin 0) then js_lt stop j0 else js_lt j0 stop)
         in if \<not> before_stop then Inr []
            else if is_fin start \<and> is_fin stop \<and> is_fin step \<and> val step \<noteq> 0
            then Inr (map (\<lambda>i. val start + val step * real i)
                        [0..<nat \<lceil>(val stop - val start) / val step\<rceil>])
            else Inl Unbounded))"

text \<open>
  Modelled from the spec: \<open>Util.Methods.uniqNumbers\<close> and \<open>Util.Methods.flatten\<close>, which
  are not part of the sources: the candidates are "de-duplicated while preserving
  order", and the clusters are flattened into one sequence.
\<close>

fun uniqNumbers_from :: "int list \<Rightarrow> int list \<Rightarrow> int list" where
  "uniqNumbers_from seen [] = []"
| "uniqNumbers_from seen (n # a) =
     (if n \<in> set seen then uniqNumbers_from seen a
      else n # uniqNumbers_from (n # seen) a)"

definition uniqNumbers :: "int list \<Rightarrow> int list" where
  "uniqNumbers a = uniqNumbers_from [] a"

definition flatten :: "'a list list \<Rightarrow> 'a list" where
  "flatten a = concat a"

text \<open>
  \<open>howManyTicks\<close>: the share of the tick budget of \<open>[lower, upper]\<close>. On a domain whose
  two transformed bounds coincide the division is by zero, and the result is NaN or an
  infinity.
\<close>

definition howManyTicks :: "ModifiedLog \<Rightarrow> real \<Rightarrow> real \<Rightarrow> jsnum" where
  "howManyTicks this lower upper =
     (let adjustedMin = adjustedLog this (d3_min (untransformedDomain this));
          adjustedMax = adjustedLog this (d3_max (untransformedDomain this));
          adjustedLower = adjustedLog this lower;
          adjustedUpper = adjustedLog this upper;
          proportion = js_div (Fin (adjustedUpper - adjustedLower)) (Fin (adjustedMax - adjustedMin));
          ticks = js_ceil (js_mul proportion (Fin (real_of_int (lastRequestedTickCount this))))
      in ticks)"

text \<open>
  \<open>logTicks\<close>, line by line. The elements of \<open>bases\<close> and the multiples are finite
  numbers.
\<close>

definition logTicks :: "ModifiedLog \<Rightarrow> real \<Rightarrow> real \<Rightarrow> error + real list" where
  "logTicks this lower upper =
     (let nTicks = howManyTicks this lower upper
      in if is_zero nTicks then Inr []
         else
           (let startLogged = js_floor (js_div (Math_log lower) (Math_log (base this)));
                endLogged = js_ceil (js_div (Math_log upper) (Math_log (base this)))
            in case d3_range endLogged startLogged
                      (js_neg (js_ceil (js_div (js_sub endLogged startLogged) nTicks))) of
                 Inl e \<Rightarrow> Inl e
               | Inr bases \<Rightarrow>
                   (let nMultiples = js_floor (js_div nTicks (Fin (real (length bases))))
                    in case d3_range (Fin (base this)) (Fin 1)
                              (js_div (js_neg (Fin (base this - 1))) nMultiples) of
                         Inl e \<Rightarrow> Inl e
                       | Inr candidates \<Rightarrow>
                           (let multiples = map floor candidates;
                                uniqMultiples = uniqNumbers multiples;
                                clusters = map (\<lambda>b. map (\<lambda>x. base this powr (b - 1) * real_of_int x)
                                                       uniqMultiples) bases;
                                flattened = flatten clusters;
                                filtered = filter (\<lambda>x. lower \<le> x \<and> x \<le> upper) flattened;
                                sorted_ticks = sort filtered
                            in Inr sorted_ticks))))"

text \<open>
  Modelled from the spec: the inherited \<open>QuantitiveScale.ticks(count)\<close> that
  \<open>super.ticks(count)\<close> calls, which is not part of the sources: \<open>lastRequestedTickCount\<close>
  is "updated whenever ticks(count) is called with an explicit count". Its result is
  discarded by the caller.
\<close>

definition super_ticks :: "ModifiedLog \<Rightarrow> int \<Rightarrow> ModifiedLog" where
  "super_ticks this count = this\<lparr>lastRequestedTickCount := count\<rparr>"

text \<open>
  \<open>ticks(count?)\<close> returns the ticks, or the exception thrown, and the scale after the
  call. \<open>linearTicks d m\<close> is \<open>d3.scale.linear().domain(d).ticks(m)\<close>, the ticking
  primitive of a new linear scale of d3, which is not part of the sources and is taken
  as a parameter.
\<close>

definition ticks ::
  "(real \<times> real \<Rightarrow> jsnum \<Rightarrow> real list) \<Rightarrow> ModifiedLog \<Rightarrow> int option
     \<Rightarrow> (error + real list) \<times> ModifiedLog" where
  "ticks linearTicks this0 count =
     (let this = (case count of None \<Rightarrow> this0 | Some c \<Rightarrow> super_ticks this0 c);
          min_d = d3_min (untransformedDomain this);
          max_d = d3_max (untransformedDomain this);
          negativeLower = min_d;
          negativeUpper = middle min_d max_d (- pivot this);
          positiveLower = middle min_d max_d (pivot this);
          positiveUpper = max_d
      in (case logTicks this (- negativeUpper) (- negativeLower) of
            Inl e \<Rightarrow> Inl e
          | Inr negative \<Rightarrow>
              (let negativeLogTicks = rev (map (\<lambda>x. - x) negative)
               in case logTicks this positiveLower positiveUpper of
                    Inl e \<Rightarrow> Inl e
                  | Inr positiveLogTicks \<Rightarrow>
                      (let linear_ticks = linearTicks (negativeUpper, positiveLower)
                                            (howManyTicks this negativeUpper positiveLower)
                       in Inr (negativeLogTicks @ linear_ticks @ positiveLogTicks))),
          this))"

subsection \<open>Auxiliary notions for the proofs\<close>

text \<open>
  The argument of the logarithm in \<open>adjustedLog\<close> for a non-negative \<open>x\<close>: the second
  adjustment of the source, \<open>if (x < pivot) x += (pivot - x) / pivot\<close>.
\<close>

definition blend :: "real \<Rightarrow> real \<Rightarrow> real" where
  "blend p x = (if x < p then x + (p - x) / p else x)"

section \<open>The transform in exact arithmetic\<close>

text \<open>
  The lemmas of this section are about the formulas of \<open>adjustedLog\<close> and
  \<open>invertedAdjustedLog\<close> evaluated exactly, over the reals.
\<close>

lemma blend_ge_one:
  fixes p x :: real
  assumes "1 < p" "0 \<le> x" "x < p"
  shows "1 \<le> x + (p - x) / p"
proof -
  have "x + (p - x) / p = 1 + x * (1 - 1 / p)"
    using assms by (simp add: field_simps)
  moreover have "0 \<le> x * (1 - 1 / p)"
    using assms by (intro mult_nonneg_nonneg) (simp_all add: field_simps)
  ultimately show ?thesis by simp
qed

lemma blend_less_pivot:
  fixes p x :: real
  assumes "1 < p" "x < p"
  shows "x + (p - x) / p < p"
proof -
  have "(p - x) * (1 / p) < (p - x) * 1"
    using assms by (intro mult_strict_left_mono) simp_all
  then show ?thesis by simp
qed

lemma blend_strict_mono:
  fixes p x y :: real
  assumes "1 < p" "x < y"
  shows "x + (p - x) / p < y + (p - y) / p"
proof -
  have "(y - x) * (1 / p) < (y - x) * 1"
    using assms by (intro mult_strict_left_mono) simp_all
  then have "(y - x) / p < y - x" by simp
  moreover have "(p - x) / p - (p - y) / p = (y - x) / p"
    by (simp add: diff_divide_distrib)
  ultimately show ?thesis by linarith
qed

lemma blend_inverse:
  fixes p x :: real
  assumes "1 < p"
  shows "(p * ((x + (p - x) / p) - 1)) / (p - 1) = x"
  using assms by (simp add: field_simps)

lemma adjustedLog_nonneg_eq:
  "0 \<le> x \<Longrightarrow> adjustedLog this x = ln (blend (pivot this) x) / ln (base this)"
  by (simp add: adjustedLog_def blend_def Let_def)

lemma adjustedLog_neg_eq:
  "x < 0 \<Longrightarrow> adjustedLog this x = - (ln (blend (pivot this) (- x)) / ln (base this))"
  by (simp add: adjustedLog_def blend_def Let_def)

lemma blend_ge1: "1 < p \<Longrightarrow> 0 \<le> x \<Longrightarrow> 1 \<le> blend p x"
  using blend_ge_one [of p x] by (simp add: blend_def)

lemma blend_gt1: "1 < p \<Longrightarrow> 0 < x \<Longrightarrow> 1 < blend p x"
  using blend_strict_mono [of p 0 x] by (simp add: blend_def split: if_splits)

lemma blend_mono: "1 < p \<Longrightarrow> x < y \<Longrightarrow> blend p x < blend p y"
  using blend_strict_mono [of p x y] blend_less_pivot [of p x]
  by (auto simp: blend_def)

lemma blend_zero: "1 < p \<Longrightarrow> blend p 0 = 1"
  by (simp add: blend_def)

lemma adjustedLog_zero:
  "1 < base this \<Longrightarrow> pivot this = base this \<Longrightarrow> adjustedLog this 0 = 0"
  by (simp add: adjustedLog_nonneg_eq blend_zero)

lemma adjustedLog_pos:
  assumes "1 < base this" "pivot this = base this" "0 < x"
  shows "0 < adjustedLog this x"
proof -
  have "1 < blend (pivot this) x" using assms by (simp add: blend_gt1)
  then have "0 < ln (blend (pivot this) x)" by simp
  moreover have "0 < ln (base this)" using assms by simp
  ultimately show ?thesis using assms by (simp add: adjustedLog_nonneg_eq)
qed

lemma adjustedLog_uminus:
  assumes "1 < base this" "pivot this = base this"
  shows "adjustedLog this (- x) = - adjustedLog this x"
proof -
  consider "x < 0" | "x = 0" | "0 < x" by linarith
  then show ?thesis
  proof cases
    case 1
    then show ?thesis by (simp add: adjustedLog_neg_eq adjustedLog_nonneg_eq)
  next
    case 2
    then show ?thesis using assms by (simp add: adjustedLog_zero)
  next
    case 3
    then show ?thesis by (simp add: adjustedLog_neg_eq adjustedLog_nonneg_eq)
  qed
qed

lemma adjustedLog_mono_nonneg:
  assumes "1 < base this" "pivot this = base this" "0 \<le> x" "x < y"
  shows "adjustedLog this x < adjustedLog this y"
proof -
  have a: "1 \<le> blend (pivot this) x" using assms by (simp add: blend_ge1)
  have b: "blend (pivot this) x < blend (pivot this) y" using assms by (simp add: blend_mono)
  have "ln (blend (pivot this) x) < ln (blend (pivot this) y)"
    using a b by simp
  moreover have "0 < ln (base this)" using assms by simp
  ultimately show ?thesis
    using assms by (simp add: adjustedLog_nonneg_eq divide_strict_right_mono)
qed

lemma adjustedLog_strict_mono:
  assumes "1 < base this" "pivot this = base this" "x < y"
  shows "adjustedLog this x < adjustedLog this y"
proof -
  consider "0 \<le> x" | "x < 0" "y \<le> 0" | "x < 0" "0 < y" by linarith
  then show ?thesis
  proof cases
    case 1
    then show ?thesis using assms by (simp add: adjustedLog_mono_nonneg)
  next
    case 2
    then have "adjustedLog this (- y) < adjustedLog this (- x)"
      using assms by (intro adjustedLog_mono_nonneg) simp_all
    then show ?thesis using assms by (simp add: adjustedLog_uminus)
  next
    case 3
    have "0 < adjustedLog this (- x)" using assms 3 by (intro adjustedLog_pos) simp_all
    then have "adjustedLog this x < 0" using assms by (simp add: adjustedLog_uminus)
    moreover have "0 < adjustedLog this y" using assms 3 by (intro adjustedLog_pos) simp_all
    ultimately show ?thesis by linarith
  qed
qed

lemma adjustedLog_mono:
  assumes "1 < base this" "pivot this = base this" "x \<le> y"
  shows "adjustedLog this x \<le> adjustedLog this y"
  using adjustedLog_strict_mono [OF assms(1,2), of x y] assms(3)
  by (cases "x = y") simp_all

lemma invertedAdjustedLog_nonneg:
  assumes "1 < base this" "pivot this = base this" "0 \<le> x"
  shows "invertedAdjustedLog this (adjustedLog this x) = x"
proof -
  let ?p = "pivot this"
  let ?y = "adjustedLog this x"
  have lb: "0 < ln (base this)" using assms by simp
  have b1: "1 \<le> blend ?p x" using assms by (simp add: blend_ge1)
  then have b0: "0 < blend ?p x" by linarith
  have y0: "0 \<le> ?y" using assms b1 lb by (simp add: adjustedLog_nonneg_eq)
  have "?y = log (base this) (blend ?p x)"
    using assms by (simp add: adjustedLog_nonneg_eq log_def)
  then have pw: "base this powr ?y = blend ?p x"
    using assms b0 by simp
  show ?thesis
  proof (cases "x < ?p")
    case True
    then have "blend ?p x < ?p" using assms blend_less_pivot [of ?p x] by (simp add: blend_def)
    moreover have "(?p * (blend ?p x - 1)) / (?p - 1) = x"
      using True assms blend_inverse [of ?p x] by (simp add: blend_def)
    ultimately show ?thesis using y0 pw
      by (simp add: invertedAdjustedLog_def Let_def)
  next
    case False
    then have "blend ?p x = x" by (simp add: blend_def)
    then show ?thesis using y0 pw False
      by (simp add: invertedAdjustedLog_def Let_def)
  qed
qed

lemma invertedAdjustedLog_uminus:
  assumes "1 < base this" "pivot this = base this" "0 < y"
  shows "invertedAdjustedLog this (- y) = - invertedAdjustedLog this y"
  using assms by (simp add: invertedAdjustedLog_def Let_def)

lemma invertedAdjustedLog_adjustedLog:
  assumes "1 < base this" "pivot this = base this"
  shows "invertedAdjustedLog this (adjustedLog this x) = x"
proof (cases "0 \<le> x")
  case True
  then show ?thesis using assms by (simp add: invertedAdjustedLog_nonneg)
next
  case False
  then have pos: "0 < - x" by simp
  then have "0 < adjustedLog this (- x)" using assms by (intro adjustedLog_pos)
  then have "invertedAdjustedLog this (- adjustedLog this (- x))
      = - invertedAdjustedLog this (adjustedLog this (- x))"
    using assms by (intro invertedAdjustedLog_uminus)
  also have "\<dots> = - (- x)" using assms pos by (simp add: invertedAdjustedLog_nonneg)
  finally show ?thesis using assms by (simp add: adjustedLog_uminus)
qed

lemma adjustedLog_fields:
  "base that = base this \<Longrightarrow> pivot that = pivot this \<Longrightarrow> adjustedLog that = adjustedLog this"
  by (rule ext) (simp add: adjustedLog_def Let_def)

subsection \<open>The linear adapter\<close>

lemma d3_interpolate_alt: "d3_interpolate a b u = a + (b - a) * u"
  by (simp add: d3_interpolate_def algebra_simps)

lemma d3_uninterpolate_reflect:
  "d3_uninterpolate a b (- t) = 2 * d3_uninterpolate a b 0 - d3_uninterpolate a b t"
proof (cases "b - a = 0")
  case True
  then show ?thesis by (simp add: d3_uninterpolate_def)
next
  case False
  define w where "w = b - a"
  have "(- t - a) / w = 2 * ((0 - a) / w) - (t - a) / w"
    by (simp add: diff_divide_distrib)
  then show ?thesis using False by (simp add: d3_uninterpolate_def w_def)
qed

lemma d3_apply_reflect: "d3_apply l (- t) = 2 * d3_apply l 0 - d3_apply l t"
  by (simp add: d3_apply_def d3_interpolate_alt d3_uninterpolate_reflect algebra_simps)

lemma d3_apply_new [simp]: "d3_apply d3_scale_linear t = t"
  by (simp add: d3_apply_def d3_scale_linear_def d3_interpolate_def d3_uninterpolate_def)

subsection \<open>Logarithms of the numbers used in the examples\<close>

lemma ln8: "ln (8::real) = 3 * ln 2"
proof -
  have "ln ((2::real) ^ 3) = real 3 * ln 2" by (rule ln_realpow)
  then show ?thesis by simp
qed

lemma ln100: "ln (100::real) = 2 * ln 10"
proof -
  have "ln ((10::real) ^ 2) = real 2 * ln 10" by (rule ln_realpow)
  then show ?thesis by simp
qed

section \<open>Construction\<close>

text \<open>
  C6: \<open>construct(base)\<close> fails with \<open>InvalidParameter\<close> exactly when \<open>base <= 1\<close>, and then
  returns no object at all; for every \<open>base > 1\<close> it succeeds and yields a scale with
  \<open>base = pivot =\<close> the given base and \<open>lastRequestedTickCount = 10\<close>. Without an
  argument the base is 10.
\<close>

theorem construct_checks_base:
  "(construct defaultExtent (Some b) = Inl InvalidParameter \<longleftrightarrow> b \<le> 1) \<and>
   (b \<le> 1 \<longrightarrow> (\<forall>this. construct defaultExtent (Some b) \<noteq> Inr this)) \<and>
   (1 < b \<longrightarrow>
      (\<exists>this. construct defaultExtent (Some b) = Inr this \<and> base this = b \<and>
         pivot this = b \<and> lastRequestedTickCount this = 10)) \<and>
   (\<exists>this. construct defaultExtent None = Inr this \<and> base this = 10 \<and>
      pivot this = 10 \<and> lastRequestedTickCount this = 10)"
  by (simp add: construct_def)

theorem construct_checks_base_witness:
  "construct (0, 1) (Some 1) = Inl InvalidParameter \<and>
   construct (0, 1) (Some (1 / 2)) = Inl InvalidParameter \<and>
   (\<exists>this. construct (0, 1) (Some 2) = Inr this \<and> base this = 2 \<and> pivot this = 2 \<and>
      lastRequestedTickCount this = 10)"
  using construct_checks_base [of "(0, 1)" 1] construct_checks_base [of "(0, 1)" "1 / 2"]
    construct_checks_base [of "(0, 1)" 2]
  by simp



section \<open>Zero and symmetry\<close>

text \<open>
  C7, as amended: for a scale with \<open>base > 1\<close>, \<open>adjustedLog 0 = 0\<close>, so \<open>scale 0\<close> is the
  image of 0 under the linear adapter: \<open>scale 0 = 0\<close> exactly when the adapter maps 0 to
  0, as the adapter of a newly constructed scale does.
\<close>

theorem zero_fixed_point:
  assumes "1 < base this" and "pivot this = base this"
  shows "adjustedLog this 0 = 0 \<and>
     (scale this 0 = 0 \<longleftrightarrow> d3_apply (d3Scale this) 0 = 0) \<and>
     (d3Scale this = d3_scale_linear \<longrightarrow> scale this 0 = 0)"
  using assms by (simp add: adjustedLog_zero scale_def)

theorem zero_fixed_point_witness:
  "adjustedLog
     \<lparr>base = 10, pivot = 10, untransformedDomain = (0, 1), lastRequestedTickCount = 10,
      d3Scale = d3_scale_linear, broadcasts = 0\<rparr> 0 = 0 \<and>
   scale
     \<lparr>base = 10, pivot = 10, untransformedDomain = (0, 1), lastRequestedTickCount = 10,
      d3Scale = d3_scale_linear, broadcasts = 0\<rparr> 0 = 0"
  using zero_fixed_point
    [of "\<lparr>base = 10, pivot = 10, untransformedDomain = (0, 1), lastRequestedTickCount = 10,
          d3Scale = d3_scale_linear, broadcasts = 0\<rparr>"]
  by simp

text \<open>
  The claim as stated fails once a domain is set: after \<open>setDomain([10, 100])\<close> on a new
  scale of base 10 the adapter's domain is [1, 2] and \<open>scale(0) = -1\<close>.
\<close>

theorem scale_zero_after_setDomain:
  "(case construct (0, 1) (Some 10) of Inl e \<Rightarrow> None
    | Inr this \<Rightarrow> Some (scale (setDomain this (10, 100)) 0)) = Some (- 1)"
  by (simp add: construct_def setDomain_def scale_def adjustedLog_def Let_def
        d3_apply_def d3_domain_def d3_scale_linear_def d3_interpolate_def
        d3_uninterpolate_def ln100)

text \<open>
  C8, as amended: for a scale with \<open>base > 1\<close>, \<open>adjustedLog\<close> is odd; \<open>scale (- x)\<close> is the
  reflection of \<open>scale x\<close> about the adapter's image of 0, so \<open>scale (- x) = - scale x\<close>
  when the adapter maps 0 to 0.
\<close>

theorem odd_symmetry:
  assumes "1 < base this" and "pivot this = base this"
  shows "adjustedLog this (- x) = - adjustedLog this x \<and>
     scale this (- x) = 2 * d3_apply (d3Scale this) 0 - scale this x \<and>
     (d3_apply (d3Scale this) 0 = 0 \<longrightarrow> scale this (- x) = - scale this x)"
  using assms by (simp add: adjustedLog_uminus scale_def d3_apply_reflect)

theorem odd_symmetry_witness:
  "adjustedLog
     \<lparr>base = 10, pivot = 10, untransformedDomain = (0, 1), lastRequestedTickCount = 10,
      d3Scale = d3_scale_linear, broadcasts = 0\<rparr> (- 5)
   = - adjustedLog
     \<lparr>base = 10, pivot = 10, untransformedDomain = (0, 1), lastRequestedTickCount = 10,
      d3Scale = d3_scale_linear, broadcasts = 0\<rparr> 5 \<and>
   scale
     \<lparr>base = 10, pivot = 10, untransformedDomain = (0, 1), lastRequestedTickCount = 10,
      d3Scale = d3_scale_linear, broadcasts = 0\<rparr> (- 5)
   = - scale
     \<lparr>base = 10, pivot = 10, untransformedDomain = (0, 1), lastRequestedTickCount = 10,
      d3Scale = d3_scale_linear, broadcasts = 0\<rparr> 5"
  using odd_symmetry
    [of "\<lparr>base = 10, pivot = 10, untransformedDomain = (0, 1), lastRequestedTickCount = 10,
          d3Scale = d3_scale_linear, broadcasts = 0\<rparr>" 5]
  by simp

text \<open>
  The claim as stated fails once a domain is set: after \<open>setDomain([10, 100])\<close> on a new
  scale of base 10, \<open>scale(-10) = -2\<close> while \<open>-scale(10) = 0\<close>.
\<close>

theorem scale_not_odd_after_setDomain:
  "(case construct (0, 1) (Some 10) of Inl e \<Rightarrow> None
    | Inr this \<Rightarrow> Some (scale (setDomain this (10, 100)) (- 10),
                        - scale (setDomain this (10, 100)) 10)) = Some (- 2, 0)"
  by (simp add: construct_def setDomain_def scale_def adjustedLog_def Let_def
        d3_apply_def d3_domain_def d3_scale_linear_def d3_interpolate_def
        d3_uninterpolate_def ln100)

section \<open>The domain\<close>

text \<open>
  C9: after \<open>setDomain([a, b])\<close>, in either order of \<open>a\<close> and \<open>b\<close>, \<open>getDomain()\<close> returns
  \<open>[a, b]\<close> as given, the linear adapter's domain is \<open>[adjustedLog a, adjustedLog b]\<close>,
  and exactly one notification has been broadcast by the time \<open>setDomain\<close> returns; the
  adapter's range, the base, the pivot and the tick count are unchanged.
\<close>

theorem setDomain_effect:
  "getDomain (setDomain this (a, b)) = (a, b) \<and>
   lin_domain (d3Scale (setDomain this (a, b))) = (adjustedLog this a, adjustedLog this b) \<and>
   lin_range (d3Scale (setDomain this (a, b))) = lin_range (d3Scale this) \<and>
   broadcasts (setDomain this (a, b)) = Suc (broadcasts this) \<and>
   base (setDomain this (a, b)) = base this \<and>
   pivot (setDomain this (a, b)) = pivot this \<and>
   lastRequestedTickCount (setDomain this (a, b)) = lastRequestedTickCount this"
  by (simp add: getDomain_def setDomain_def d3_domain_def Let_def
        adjustedLog_fields [of "this\<lparr>untransformedDomain := (a, b)\<rparr>" this])

section \<open>The tick generator\<close>

subsection \<open>Arithmetic of the numbers that need not be finite\<close>

lemma finite_of_positive [simp]: "finite_of r False = Fin r"
  by (simp add: finite_of_def zero_of_def)

lemma finite_of_nonzero [simp]: "r \<noteq> 0 \<Longrightarrow> finite_of r negative = Fin r"
  by (simp add: finite_of_def)

lemma finite_of_props [simp]:
  "val (finite_of r negative) = r" "is_fin (finite_of r negative)"
  "finite_of r negative \<noteq> PInf" "finite_of r negative \<noteq> NInf" "finite_of r negative \<noteq> NaN"
  "is_zero (finite_of r negative) \<longleftrightarrow> r = 0" "\<not> is_inf (finite_of r negative)"
  by (simp_all add: finite_of_def zero_of_def)

lemma sign_bit_finite_of:
  "sign_bit (finite_of r negative) = (if r = 0 then negative else r < 0)"
  by (simp add: finite_of_def zero_of_def)

lemma js_sub_Fin: "js_sub (Fin b) (Fin a) = finite_of (b - a) False"
  by (auto simp: js_sub_def js_add_def js_neg_def finite_of_def zero_of_def)

lemma js_div_Fin:
  "d \<noteq> 0 \<Longrightarrow> js_div (Fin n) (Fin d) = finite_of (n / d) ((n < 0) \<noteq> (d < 0))"
  by (simp add: js_div_def)

lemma js_div_Fin_zero:
  "js_div (Fin n) (Fin 0) = (if n = 0 then NaN else inf_of (n < 0))"
  by (simp add: js_div_def)

lemma js_mul_Fin: "js_mul (Fin a) (Fin b) = finite_of (a * b) ((a < 0) \<noteq> (b < 0))"
  by (simp add: js_mul_def)

lemma js_NaN [simp]:
  "js_div a NaN = NaN" "js_div NaN b = NaN" "js_mul a NaN = NaN" "js_mul NaN b = NaN"
  "js_add a NaN = NaN" "js_add NaN b = NaN" "js_ceil NaN = NaN" "js_floor NaN = NaN"
  "js_neg NaN = NaN" "\<not> js_lt NaN b" "\<not> js_lt a NaN" "js_sub a NaN = NaN"
  by (simp_all add: js_div_def js_mul_def js_add_def js_ceil_def js_floor_def js_neg_def
        js_lt_def js_sub_def)

lemma js_ceil_Fin_nonneg: "0 \<le> r \<Longrightarrow> js_ceil (Fin r) = Fin (real_of_int \<lceil>r\<rceil>)"
  by (simp add: js_ceil_def finite_of_def zero_of_def)

lemma js_floor_Fin [simp]: "js_floor (Fin r) = Fin (real_of_int \<lfloor>r\<rfloor>)"
  by (simp add: js_floor_def)

lemma js_neg_Fin_nonzero: "r \<noteq> 0 \<Longrightarrow> js_neg (Fin r) = Fin (- r)"
  by (simp add: js_neg_def)

lemma Math_log_pos [simp]: "0 < x \<Longrightarrow> Math_log x = Fin (ln x)"
  by (simp add: Math_log_def)

subsection \<open>Results of \<open>d3.range\<close>\<close>

lemma js_sub_fin:
  assumes "is_fin a" "is_fin b" "val a - val b \<noteq> 0"
  shows "js_sub a b = Fin (val a - val b)"
  using assms
  by (cases a; cases b) (auto simp: js_sub_def js_add_def js_neg_def finite_of_def zero_of_def)

lemma js_sub_is_fin:
  assumes "is_fin a" "is_fin b"
  shows "is_fin (js_sub a b) \<and> val (js_sub a b) = val a - val b"
  using assms
  by (cases a; cases b) (auto simp: js_sub_def js_add_def js_neg_def finite_of_def zero_of_def)

lemma js_div_is_fin:
  assumes "is_fin a" "st \<noteq> 0"
  shows "is_fin (js_div a (Fin st))"
  using assms by (cases a) (auto simp: js_div_def finite_of_def zero_of_def)

lemma js_start_value:
  assumes "is_fin a" "st \<noteq> 0"
  shows "is_fin (js_add a (js_mul (Fin st) (Fin 0)))
     \<and> val (js_add a (js_mul (Fin st) (Fin 0))) = val a"
  using assms
  by (cases a) (auto simp: js_add_def js_mul_def finite_of_def zero_of_def)

lemma js_lt_fin: "is_fin a \<Longrightarrow> is_fin b \<Longrightarrow> js_lt a b \<longleftrightarrow> val a < val b"
  by (cases a; cases b) (auto simp: js_lt_def)

lemma d3_range_finite:
  assumes "is_fin a" "is_fin b" "st \<noteq> 0"
  shows "d3_range a b (Fin st)
     = Inr (map (\<lambda>i. val a + st * real i) [0..<nat \<lceil>(val b - val a) / st\<rceil>])"
proof -
  have "is_fin (js_div (js_sub b a) (Fin st))"
    using assms js_sub_is_fin [of b a] by (simp add: js_div_is_fin)
  then have thrown: "js_div (js_sub b a) (Fin st) \<noteq> PInf" by auto
  let ?j0 = "js_add a (js_mul (Fin st) (Fin 0))"
  have j0: "is_fin ?j0" "val ?j0 = val a"
    using js_start_value [OF assms(1,3)] by simp_all
  have before: "(if js_lt (Fin st) (Fin 0) then js_lt b ?j0 else js_lt ?j0 b)
      = (if st < 0 then val b < val a else val a < val b)"
    using assms j0 by (simp add: js_lt_fin)
  have empty: "nat \<lceil>(val b - val a) / st\<rceil> = 0"
    if "\<not> (if st < 0 then val b < val a else val a < val b)"
  proof -
    have "(val b - val a) / st \<le> 0"
      using that assms by (auto simp: divide_le_0_iff split: if_splits)
    then have "\<lceil>(val b - val a) / st\<rceil> \<le> 0" by (simp add: ceiling_le_iff)
    then show ?thesis by simp
  qed
  show ?thesis
    unfolding d3_range_def Let_def before
    using thrown assms empty by auto
qed

lemma d3_range_NaN_step [simp]: "d3_range start stop NaN = Inr []"
  by (simp add: d3_range_def Let_def)

lemma d3_range_NInf_step: "1 < b \<Longrightarrow> d3_range (Fin b) (Fin 1) NInf = Inr []"
  by (simp add: d3_range_def Let_def js_sub_Fin js_div_def js_mul_def js_lt_def zero_of_def)

subsection \<open>Results of the helpers\<close>

lemma middle_eq: "x \<le> y \<Longrightarrow> middle x y z = max x (min y z)"
  by (auto simp: middle_def)

lemma logTicks_sorted_range:
  assumes "logTicks this lower upper = Inr ts"
  shows "sorted ts \<and> set ts \<subseteq> {lower..upper}"
  using assms
  by (auto simp: logTicks_def Let_def split: sum.splits if_splits)

lemma howManyTicks_fields:
  "base that = base this \<Longrightarrow> pivot that = pivot this \<Longrightarrow>
   untransformedDomain that = untransformedDomain this \<Longrightarrow>
   lastRequestedTickCount that = lastRequestedTickCount this \<Longrightarrow>
   howManyTicks that = howManyTicks this"
  by (intro ext) (simp add: howManyTicks_def Let_def adjustedLog_fields [of that this])

lemma howManyTicks_regular:
  assumes inv: "1 < base this" "pivot this = base this"
    and dom: "d3_min (untransformedDomain this) < d3_max (untransformedDomain this)"
    and cnt: "0 \<le> lastRequestedTickCount this"
    and le: "lower \<le> upper"
  shows "\<exists>n. howManyTicks this lower upper = Fin (real_of_int n) \<and> 0 \<le> n \<and>
            (n \<noteq> 0 \<longrightarrow> lower < upper)"
proof -
  let ?D = "adjustedLog this (d3_max (untransformedDomain this))
              - adjustedLog this (d3_min (untransformedDomain this))"
  let ?N = "adjustedLog this upper - adjustedLog this lower"
  let ?c = "real_of_int (lastRequestedTickCount this)"
  have D: "0 < ?D" using adjustedLog_strict_mono [OF inv dom] by simp
  have N: "0 \<le> ?N" using adjustedLog_mono [OF inv le] by simp
  have q: "0 \<le> ?N / ?D" using D N by simp
  have p: "js_div (Fin ?N) (Fin ?D) = Fin (?N / ?D)"
    using D N by (simp add: js_div_Fin)
  have m: "js_mul (Fin (?N / ?D)) (Fin ?c) = Fin (?N / ?D * ?c)"
    using q cnt by (simp add: js_mul_Fin)
  have nn: "0 \<le> ?N / ?D * ?c"
    using q cnt by (intro mult_nonneg_nonneg) simp_all
  have "howManyTicks this lower upper = js_ceil (js_mul (js_div (Fin ?N) (Fin ?D)) (Fin ?c))"
    by (simp only: howManyTicks_def Let_def)
  also have "\<dots> = Fin (real_of_int \<lceil>?N / ?D * ?c\<rceil>)"
    by (simp only: p m js_ceil_Fin_nonneg [OF nn])
  finally have eq: "howManyTicks this lower upper = Fin (real_of_int \<lceil>?N / ?D * ?c\<rceil>)" .
  have "0 \<le> \<lceil>?N / ?D * ?c\<rceil>"
    using nn by (simp add: le_ceiling_iff)
  moreover have "lower = upper \<Longrightarrow> \<lceil>?N / ?D * ?c\<rceil> = 0"
    by simp
  ultimately show ?thesis using eq le by (cases "lower = upper") auto
qed

lemma howManyTicks_zero_width:
  assumes "adjustedLog this (d3_min (untransformedDomain this))
           = adjustedLog this (d3_max (untransformedDomain this))"
  shows "howManyTicks this lower upper =
     (if adjustedLog this upper = adjustedLog this lower \<or> lastRequestedTickCount this = 0
      then NaN
      else inf_of ((adjustedLog this upper < adjustedLog this lower)
                   \<noteq> (lastRequestedTickCount this < 0)))"
  using assms
  by (auto simp: howManyTicks_def Let_def js_div_Fin_zero js_mul_def js_ceil_def inf_of_def)

lemma logged_span:
  fixes b lower upper :: real
  assumes "1 < b" "0 < lower" "lower < upper"
  shows "\<lfloor>ln lower / ln b\<rfloor> < \<lceil>ln upper / ln b\<rceil>"
proof -
  have lb: "0 < ln b" using assms by simp
  have "ln lower < ln upper" using assms by simp
  then have "ln lower / ln b < ln upper / ln b"
    using lb by (simp add: divide_strict_right_mono)
  moreover have "real_of_int \<lfloor>ln lower / ln b\<rfloor> \<le> ln lower / ln b" by simp
  moreover have "ln upper / ln b \<le> real_of_int \<lceil>ln upper / ln b\<rceil>" by simp
  ultimately have "real_of_int \<lfloor>ln lower / ln b\<rfloor> < real_of_int \<lceil>ln upper / ln b\<rceil>"
    by linarith
  then show ?thesis by simp
qed

lemma bases_step_pos:
  fixes e s n :: int
  assumes "s < e" "0 < n"
  shows "1 \<le> \<lceil>real_of_int (e - s) / real_of_int n\<rceil>"
proof -
  have "0 < real_of_int (e - s) / real_of_int n" using assms by simp
  then show ?thesis by (simp add: less_ceiling_iff)
qed

lemma logged_quotient:
  assumes "1 < b" "0 < x"
  shows "js_div (Math_log x) (Math_log b) = finite_of (ln x / ln b) (x < 1)"
proof -
  have "ln b \<noteq> 0" "0 < ln b" using assms by simp_all
  moreover have "ln x < 0 \<longleftrightarrow> x < 1" using assms by simp
  ultimately show ?thesis
    using assms by (simp add: js_div_Fin)
qed

lemma js_ceil_is_fin: "is_fin a \<Longrightarrow> is_fin (js_ceil a) \<and> val (js_ceil a) = real_of_int \<lceil>val a\<rceil>"
  by (cases a) (auto simp: js_ceil_def)

lemma js_mul_is_fin: "is_fin a \<Longrightarrow> is_fin b \<Longrightarrow> is_fin (js_mul a b)"
  by (cases a; cases b) (auto simp: js_mul_def)

lemma js_floor_is_fin: "is_fin a \<Longrightarrow> is_fin (js_floor a) \<and> val (js_floor a) = real_of_int \<lfloor>val a\<rfloor>"
  by (cases a) (auto simp: js_floor_def)

lemma logTicks_regular:
  assumes inv: "1 < base this" "pivot this = base this"
    and dom: "d3_min (untransformedDomain this) < d3_max (untransformedDomain this)"
    and cnt: "0 \<le> lastRequestedTickCount this"
    and le: "lower \<le> upper"
    and pos: "lower < upper \<Longrightarrow> 0 < lower"
  shows "\<exists>ts. logTicks this lower upper = Inr ts"
proof -
  obtain n where n: "howManyTicks this lower upper = Fin (real_of_int n)" "0 \<le> n"
      "n \<noteq> 0 \<longrightarrow> lower < upper"
    using howManyTicks_regular [OF inv dom cnt le] by blast
  show ?thesis
  proof (cases "n = 0")
    case True
    then show ?thesis using n by (simp add: logTicks_def)
  next
    case False
    then have npos: "0 < n" and lt: "lower < upper" using n by auto
    then have lpos: "0 < lower" and upos: "0 < upper" using pos by auto
    have nz: "\<not> is_zero (howManyTicks this lower upper)" using n(1) False by simp
    let ?s = "\<lfloor>ln lower / ln (base this)\<rfloor>"
    let ?e = "\<lceil>ln upper / ln (base this)\<rceil>"
    let ?k = "\<lceil>real_of_int (?e - ?s) / real_of_int n\<rceil>"
    define sL where "sL = js_floor (js_div (Math_log lower) (Math_log (base this)))"
    define eL where "eL = js_ceil (js_div (Math_log upper) (Math_log (base this)))"
    have se: "?s < ?e" using logged_span [OF inv(1) lpos lt] .
    have k: "1 \<le> ?k" using bases_step_pos [OF se npos] .
    have sL: "is_fin sL" "val sL = real_of_int ?s"
      using js_floor_is_fin [of "js_div (Math_log lower) (Math_log (base this))"]
      by (simp_all add: sL_def logged_quotient [OF inv(1) lpos])
    have eL: "is_fin eL" "val eL = real_of_int ?e"
      using js_ceil_is_fin [of "js_div (Math_log upper) (Math_log (base this))"]
      by (simp_all add: eL_def logged_quotient [OF inv(1) upos])
    have diff: "js_sub eL sL = Fin (real_of_int (?e - ?s))"
      using js_sub_fin [OF eL(1) sL(1)] se by (simp add: eL sL)
    have quot: "js_div (Fin (real_of_int (?e - ?s))) (Fin (real_of_int n))
        = Fin (real_of_int (?e - ?s) / real_of_int n)"
      using npos se by (simp add: js_div_Fin)
    have "0 \<le> real_of_int (?e - ?s) / real_of_int n" using npos se by simp
    then have ce: "js_ceil (Fin (real_of_int (?e - ?s) / real_of_int n)) = Fin (real_of_int ?k)"
      by (rule js_ceil_Fin_nonneg)
    have "real_of_int ?k \<noteq> 0" using k by linarith
    then have ng: "js_neg (Fin (real_of_int ?k)) = Fin (- real_of_int ?k)"
      by (rule js_neg_Fin_nonzero)
    have step: "js_neg (js_ceil (js_div (js_sub eL sL) (howManyTicks this lower upper)))
        = Fin (- real_of_int ?k)"
      by (simp only: diff n(1) quot ce ng)
    have k0: "- real_of_int ?k \<noteq> 0" using k by linarith
    define bases where "bases = map (\<lambda>i. val eL + (- real_of_int ?k) * real i)
         [0..<nat \<lceil>(val sL - val eL) / (- real_of_int ?k)\<rceil>]"
    have bases: "d3_range eL sL (Fin (- real_of_int ?k)) = Inr bases"
      unfolding bases_def by (rule d3_range_finite [OF eL(1) sL(1) k0])
    have "val sL - val eL < 0" using se by (simp add: sL eL)
    moreover have "- real_of_int ?k < 0" using k by linarith
    ultimately have "0 < (val sL - val eL) / (- real_of_int ?k)"
      by (rule divide_neg_neg)
    then have "0 < \<lceil>(val sL - val eL) / (- real_of_int ?k)\<rceil>"
      by (simp add: less_ceiling_iff)
    then have len: "0 < length bases" by (simp add: bases_def)
    define m where "m = \<lfloor>real_of_int n / real (length bases)\<rfloor>"
    have nM: "js_floor (js_div (howManyTicks this lower upper) (Fin (real (length bases))))
        = Fin (real_of_int m)"
      using len npos by (simp add: n(1) js_div_Fin m_def)
    have b1: "js_neg (Fin (base this - 1)) = Fin (- (base this - 1))"
      using inv by (simp add: js_neg_Fin_nonzero)
    have "\<exists>c. d3_range (Fin (base this)) (Fin 1)
             (js_div (Fin (- (base this - 1))) (Fin (real_of_int m))) = Inr c"
    proof (cases "m = 0")
      case True
      then show ?thesis
        using inv by (simp add: js_div_Fin_zero inf_of_def d3_range_NInf_step)
    next
      case False
      then have "- (base this - 1) / real_of_int m \<noteq> 0" using inv by simp
      then show ?thesis
        using False by (simp add: js_div_Fin d3_range_finite)
    qed
    then obtain c where c: "d3_range (Fin (base this)) (Fin 1)
             (js_div (Fin (- (base this - 1))) (Fin (real_of_int m))) = Inr c"
      by blast
    show ?thesis
      using nz step bases nM b1 c
      by (simp add: logTicks_def Let_def sL_def [symmetric] eL_def [symmetric])
  qed
qed

lemma logTicks_NaN:
  assumes "howManyTicks this lower upper = NaN"
  shows "logTicks this lower upper = Inr []"
  using assms by (simp add: logTicks_def Let_def flatten_def)

subsection \<open>The three segments\<close>

lemma sorted_rev_uminus:
  fixes xs :: "real list"
  shows "sorted (rev (map uminus xs)) = sorted xs"
  by (simp add: sorted_wrt_rev sorted_wrt_map)

lemma d3_min_le_max: "d3_min d \<le> d3_max d"
  by (simp add: d3_min_def d3_max_def)

lemma d3_min_less_max: "fst d \<noteq> snd d \<longleftrightarrow> d3_min d < d3_max d"
  by (auto simp: d3_min_def d3_max_def)

lemma ticks_Some:
  "ticks linearTicks this (Some c) =
     (fst (ticks linearTicks (super_ticks this c) None), super_ticks this c)"
  by (simp add: ticks_def Let_def)

lemma ticks_None_snd: "snd (ticks linearTicks this None) = this"
  by (simp add: ticks_def Let_def)

lemma ticks_None_segments:
  assumes "logTicks this
             (- middle (d3_min (untransformedDomain this)) (d3_max (untransformedDomain this))
                  (- pivot this))
             (- d3_min (untransformedDomain this)) = Inr negative"
    and "logTicks this
           (middle (d3_min (untransformedDomain this)) (d3_max (untransformedDomain this))
              (pivot this))
           (d3_max (untransformedDomain this)) = Inr positive"
  shows "fst (ticks linearTicks this None) =
     Inr (rev (map uminus negative)
          @ linearTicks
              (middle (d3_min (untransformedDomain this)) (d3_max (untransformedDomain this))
                 (- pivot this),
               middle (d3_min (untransformedDomain this)) (d3_max (untransformedDomain this))
                 (pivot this))
              (howManyTicks this
                 (middle (d3_min (untransformedDomain this)) (d3_max (untransformedDomain this))
                    (- pivot this))
                 (middle (d3_min (untransformedDomain this)) (d3_max (untransformedDomain this))
                    (pivot this)))
          @ positive)"
  using assms by (simp add: ticks_def Let_def)

lemma segments_return:
  assumes inv: "1 < base this" "pivot this = base this"
    and cnt: "0 \<le> lastRequestedTickCount this"
  shows "(\<exists>negative. logTicks this
             (- middle (d3_min (untransformedDomain this)) (d3_max (untransformedDomain this))
                  (- pivot this))
             (- d3_min (untransformedDomain this)) = Inr negative) \<and>
         (\<exists>positive. logTicks this
           (middle (d3_min (untransformedDomain this)) (d3_max (untransformedDomain this))
              (pivot this))
           (d3_max (untransformedDomain this)) = Inr positive)"
proof -
  let ?mn = "d3_min (untransformedDomain this)"
  let ?mx = "d3_max (untransformedDomain this)"
  let ?nU = "middle ?mn ?mx (- pivot this)"
  let ?pL = "middle ?mn ?mx (pivot this)"
  have le: "?mn \<le> ?mx" by (rule d3_min_le_max)
  have nU: "?nU = max ?mn (min ?mx (- pivot this))" using le by (rule middle_eq)
  have pL: "?pL = max ?mn (min ?mx (pivot this))" using le by (rule middle_eq)
  have p: "0 < pivot this" using inv by simp
  have ord: "?mn \<le> ?nU" "?nU \<le> ?pL" "?pL \<le> ?mx"
    using le p by (simp_all add: nU pL)
  show ?thesis
  proof (cases "?mn < ?mx")
    case True
    have "\<exists>ts. logTicks this (- ?nU) (- ?mn) = Inr ts"
    proof (rule logTicks_regular [OF inv True cnt])
      show "- ?nU \<le> - ?mn" using ord by simp
      show "0 < - ?nU" if "- ?nU < - ?mn"
        using that p by (auto simp: nU max_def min_def split: if_splits)
    qed
    moreover have "\<exists>ts. logTicks this ?pL ?mx = Inr ts"
    proof (rule logTicks_regular [OF inv True cnt])
      show "?pL \<le> ?mx" using ord by simp
      show "0 < ?pL" if "?pL < ?mx"
        using that p by (auto simp: pL max_def min_def split: if_splits)
    qed
    ultimately show ?thesis by blast
  next
    case False
    then have eq: "?mx = ?mn" using le by simp
    then have w: "adjustedLog this ?mn = adjustedLog this ?mx" by simp
    have m: "?nU = ?mn" "?pL = ?mx" using ord eq by simp_all
    have h: "howManyTicks this x x = NaN" for x
      by (simp add: howManyTicks_zero_width [OF w])
    have "logTicks this (- ?nU) (- ?mn) = Inr []"
      unfolding m by (rule logTicks_NaN [OF h])
    moreover have "logTicks this ?pL ?mx = Inr []"
      unfolding m by (rule logTicks_NaN [OF h])
    ultimately show ?thesis by blast
  qed
qed

subsection \<open>A worked example: base 10, domain [-100, 100], ten ticks\<close>

text \<open>
  The linear ticking primitive of the example returns the two ends of the domain it is
  given for a finite count, and nothing for a count that is not finite.
\<close>

lemmas js_arith = js_div_def js_mul_def js_add_def js_sub_def js_neg_def js_ceil_def
  js_floor_def js_lt_def finite_of_def zero_of_def inf_of_def Math_log_def

lemma logTicks_example:
  assumes f: "base that = 10" "pivot that = 10" "untransformedDomain that = (- 100, 100)"
    "lastRequestedTickCount that = 10"
  shows "logTicks that 10 100 = Inr [40, 70, 100]"
proof -
  have a10: "adjustedLog that 10 = 1" by (simp add: adjustedLog_def f)
  have a100: "adjustedLog that 100 = 2" by (simp add: adjustedLog_def f ln100)
  have am: "adjustedLog that (- 100) = - 2" by (simp add: adjustedLog_def f ln100)
  have c: "\<lceil>(5::real) / 2\<rceil> = 3" by (rule ceiling_unique) simp_all
  have n: "howManyTicks that 10 100 = Fin 3"
    by (simp add: howManyTicks_def Let_def f d3_min_def d3_max_def a10 a100 am c js_arith)
  have s: "js_floor (js_div (Fin (ln 10)) (Fin (ln 10))) = Fin 1"
    by (simp add: js_arith)
  have e: "js_ceil (js_div (Fin (ln 100)) (Fin (ln 10))) = Fin 2"
    by (simp add: js_arith ln100)
  have k: "\<lceil>(1::real) / 3\<rceil> = 1" by (rule ceiling_unique) simp_all
  have st: "js_neg (js_ceil (js_div (js_sub (Fin 2) (Fin 1)) (Fin 3))) = Fin (- 1)"
    by (simp add: js_arith k)
  have bases: "d3_range (Fin 2) (Fin 1) (Fin (- 1)) = Inr [2]"
    by (simp add: d3_range_finite upt_rec)
  have nm: "js_floor (js_div (Fin 3) (Fin 1)) = Fin 3"
    by (simp add: js_arith)
  have st2: "js_div (js_neg (Fin 9)) (Fin 3) = Fin (- 3)"
    by (simp add: js_arith)
  have cands: "d3_range (Fin 10) (Fin 1) (Fin (- 3)) = Inr [10, 7, 4]"
    by (simp add: d3_range_finite upt_rec)
  have u: "uniqNumbers [10, 7, 4] = [10, 7, 4]"
    by (simp add: uniqNumbers_def)
  show ?thesis
    by (simp add: logTicks_def Let_def n f s e st bases nm st2 cands u flatten_def)
qed

lemma ticks_scenario:
  assumes f: "base that = 10" "pivot that = 10" "untransformedDomain that = (- 100, 100)"
    "lastRequestedTickCount that = 10"
  shows "fst (ticks linearTicks that None)
     = Inr ([- 100, - 70, - 40] @ linearTicks (- 10, 10) (Fin 5) @ [40, 70, 100])"
proof -
  have a10: "adjustedLog that 10 = 1" by (simp add: adjustedLog_def f)
  have a100: "adjustedLog that 100 = 2" by (simp add: adjustedLog_def f ln100)
  have am10: "adjustedLog that (- 10) = - 1" by (simp add: adjustedLog_def f)
  have am: "adjustedLog that (- 100) = - 2" by (simp add: adjustedLog_def f ln100)
  have n: "howManyTicks that (- 10) 10 = Fin 5"
    by (simp add: howManyTicks_def Let_def f d3_min_def d3_max_def a10 a100 am am10 js_arith)
  have m1: "middle (- 100) 100 (- 10) = - 10" by (simp add: middle_def)
  have m2: "middle (- 100) 100 10 = 10" by (simp add: middle_def)
  show ?thesis
    by (simp add: ticks_def Let_def f d3_min_def d3_max_def m1 m2 logTicks_example [OF f] n)
qed

lemma ticks_example:
  "fst (ticks (\<lambda>d m. if is_fin m then [fst d, snd d] else [])
      \<lparr>base = 10, pivot = 10, untransformedDomain = (- 100, 100), lastRequestedTickCount = 10,
       d3Scale = \<lparr>lin_domain = (- 2, 2), lin_range = (0, 1)\<rparr>, broadcasts = 1\<rparr> None)
   = Inr [- 100, - 70, - 40, - 10, 10, 40, 70, 100]"
  by (simp add: ticks_scenario)

section \<open>Tick ordering\<close>

text \<open>
  C3: for every domain of two numbers, equal or not, and every positive requested tick
  count, \<open>ticks\<close> returns a sequence: the negative-log ticks that \<open>logTicks\<close> gives for
  the mirrored negative region, negated and reversed, then the linear ticks of
  \<open>[negativeUpper, positiveLower]\<close> for the count \<open>howManyTicks\<close> gives, then the
  positive-log ticks of \<open>logTicks\<close>, in that order. The sequence is ascending
  (non-decreasing), across the segment boundaries too, every element lies within
  \<open>[min(domain), max(domain)]\<close>, and each segment lies within its own region. The linear
  ticking primitive of d3 is assumed to return ascending ticks within the domain it is
  given. \<open>that\<close> is the scale after the call, with the requested count stored. On the
  domain [-100, 100] with base 10 and ten ticks the sequence is -100, -70, -40, the
  linear ticks of [-10, 10] for the count 5, and 40, 70, 100.
\<close>

theorem ticks_ascending_within_domain:
  fixes linearTicks :: "real \<times> real \<Rightarrow> jsnum \<Rightarrow> real list"
    and this :: ModifiedLog and count :: "int option"
  defines "that \<equiv> snd (ticks linearTicks this count)"
    and "lo \<equiv> d3_min (untransformedDomain this)"
    and "hi \<equiv> d3_max (untransformedDomain this)"
  defines "negativeUpper \<equiv> middle lo hi (- pivot this)"
    and "positiveLower \<equiv> middle lo hi (pivot this)"
  assumes "1 < base this" and "pivot this = base this"
    and "0 < (case count of None \<Rightarrow> lastRequestedTickCount this | Some c \<Rightarrow> c)"
    and "\<forall>d m. fst d \<le> snd d \<longrightarrow>
           sorted (linearTicks d m) \<and> set (linearTicks d m) \<subseteq> {fst d..snd d}"
  shows "\<exists>negative positive.
     logTicks that (- negativeUpper) (- lo) = Inr negative \<and>
     logTicks that positiveLower hi = Inr positive \<and>
     fst (ticks linearTicks this count) =
       Inr (rev (map uminus negative)
            @ linearTicks (negativeUpper, positiveLower)
                (howManyTicks that negativeUpper positiveLower)
            @ positive) \<and>
     sorted (rev (map uminus negative)
            @ linearTicks (negativeUpper, positiveLower)
                (howManyTicks that negativeUpper positiveLower)
            @ positive) \<and>
     set (rev (map uminus negative)
            @ linearTicks (negativeUpper, positiveLower)
                (howManyTicks that negativeUpper positiveLower)
            @ positive) \<subseteq> {lo..hi} \<and>
     set (rev (map uminus negative)) \<subseteq> {lo..negativeUpper} \<and>
     set (linearTicks (negativeUpper, positiveLower)
            (howManyTicks that negativeUpper positiveLower))
       \<subseteq> {negativeUpper..positiveLower} \<and>
     set positive \<subseteq> {positiveLower..hi} \<and>
     (base e = 10 \<and> pivot e = 10 \<and> untransformedDomain e = (- 100, 100) \<and>
      lastRequestedTickCount e = 10 \<longrightarrow>
        fst (ticks linearTicks e None)
          = Inr ([- 100, - 70, - 40] @ linearTicks (- 10, 10) (Fin 5) @ [40, 70, 100]))"
proof -
  have that: "that = (case count of None \<Rightarrow> this | Some c \<Rightarrow> super_ticks this c)"
    by (cases count) (simp_all add: that_def ticks_None_snd ticks_Some)
  have res: "fst (ticks linearTicks this count) = fst (ticks linearTicks that None)"
    by (cases count) (simp_all add: that ticks_Some)
  have inv: "1 < base that" "pivot that = base that"
    using assms(6,7) by (cases count; simp add: that super_ticks_def)+
  have cnt: "0 \<le> lastRequestedTickCount that"
    using assms(8) by (cases count) (simp_all add: that super_ticks_def)
  have dom: "untransformedDomain that = untransformedDomain this"
    by (cases count) (simp_all add: that super_ticks_def)
  have piv: "pivot that = pivot this"
    by (cases count) (simp_all add: that super_ticks_def)
  have le: "lo \<le> hi" unfolding lo_def hi_def by (rule d3_min_le_max)
  have p: "0 < pivot this" using assms(6,7) by simp
  have ord: "lo \<le> negativeUpper" "negativeUpper \<le> positiveLower" "positiveLower \<le> hi"
    using le p by (simp_all add: negativeUpper_def positiveLower_def middle_eq)
  obtain negative positive where
    neg: "logTicks that (- negativeUpper) (- lo) = Inr negative" and
    pos: "logTicks that positiveLower hi = Inr positive"
    using segments_return [OF inv cnt]
    unfolding dom piv negativeUpper_def positiveLower_def lo_def hi_def by blast
  let ?lin = "linearTicks (negativeUpper, positiveLower)
                (howManyTicks that negativeUpper positiveLower)"
  have ts: "fst (ticks linearTicks this count) = Inr (rev (map uminus negative) @ ?lin @ positive)"
    unfolding res
    using ticks_None_segments [of that negative positive linearTicks] neg pos
    unfolding dom piv negativeUpper_def positiveLower_def lo_def hi_def by simp
  have N: "sorted negative" "set negative \<subseteq> {- negativeUpper..- lo}"
    using logTicks_sorted_range [OF neg] by simp_all
  have P: "sorted positive" "set positive \<subseteq> {positiveLower..hi}"
    using logTicks_sorted_range [OF pos] by simp_all
  have L: "sorted ?lin" "set ?lin \<subseteq> {negativeUpper..positiveLower}"
    using assms(9) ord(2) by simp_all
  have N': "sorted (rev (map uminus negative))"
    "set (rev (map uminus negative)) \<subseteq> {lo..negativeUpper}"
    using N by (auto simp: sorted_rev_uminus)
  have "sorted (?lin @ positive)"
    using L P by (fastforce simp: sorted_append)
  moreover have "set (?lin @ positive) \<subseteq> {negativeUpper..hi}"
    using L(2) P(2) ord by auto
  ultimately have s: "sorted (rev (map uminus negative) @ ?lin @ positive)"
    using N' by (fastforce simp: sorted_append)
  have r: "set (rev (map uminus negative) @ ?lin @ positive) \<subseteq> {lo..hi}"
    using N'(2) L(2) P(2) ord by auto
  have scenario: "fst (ticks linearTicks e None)
          = Inr ([- 100, - 70, - 40] @ linearTicks (- 10, 10) (Fin 5) @ [40, 70, 100])"
    if "base e = 10 \<and> pivot e = 10 \<and> untransformedDomain e = (- 100, 100) \<and>
      lastRequestedTickCount e = 10"
    using that by (intro ticks_scenario) simp_all
  show ?thesis
    using neg pos ts s r N'(2) L(2) P(2) scenario by blast
qed

theorem ticks_ascending_within_domain_witness:
  "fst (ticks (\<lambda>d m. if is_fin m then [fst d, snd d] else [])
      \<lparr>base = 10, pivot = 10, untransformedDomain = (- 100, 100), lastRequestedTickCount = 10,
       d3Scale = \<lparr>lin_domain = (- 2, 2), lin_range = (0, 1)\<rparr>, broadcasts = 1\<rparr> None)
     = Inr [- 100, - 70, - 40, - 10, 10, 40, 70, 100] \<and>
   (\<exists>ts. fst (ticks (\<lambda>d m. if is_fin m then [fst d, snd d] else [])
      \<lparr>base = 10, pivot = 10, untransformedDomain = (5, 5), lastRequestedTickCount = 10,
       d3Scale = \<lparr>lin_domain = (0, 1), lin_range = (0, 1)\<rparr>, broadcasts = 1\<rparr> (Some 7))
     = Inr ts \<and> sorted ts \<and> set ts \<subseteq> {5..5})"
proof -
  let ?lt = "\<lambda>(d :: real \<times> real) m. if is_fin m then [fst d, snd d] else []"
  let ?S = "\<lparr>base = 10, pivot = 10, untransformedDomain = (5, 5), lastRequestedTickCount = 10,
       d3Scale = \<lparr>lin_domain = (0, 1), lin_range = (0, 1)\<rparr>, broadcasts = 1\<rparr>"
  have lin: "\<forall>d m. fst d \<le> snd d \<longrightarrow> sorted (?lt d m) \<and> set (?lt d m) \<subseteq> {fst d..snd d}"
    by auto
  have "\<exists>ts. fst (ticks ?lt ?S (Some 7)) = Inr ts \<and> sorted ts \<and>
      set ts \<subseteq> {d3_min (untransformedDomain ?S)..d3_max (untransformedDomain ?S)}"
    using ticks_ascending_within_domain [of ?S "Some 7" ?lt, OF _ _ _ lin] by fastforce
  then show ?thesis
    using ticks_example by (simp add: d3_min_def d3_max_def)
qed

section \<open>The zero-width domain\<close>

text \<open>
  C4: whenever \<open>adjustedLog (min domain) = adjustedLog (max domain)\<close>, and only then,
  \<open>howManyTicks\<close> divides by zero for every \<open>lower\<close> and \<open>upper\<close> and returns no finite
  tick count: NaN when the two transformed bounds are equal or the requested count is 0,
  and an infinity otherwise. No policy value takes its place in \<open>ticks\<close>: the two log segments
  are empty, and NaN is the count that \<open>ticks\<close> requests from the linear ticking
  primitive.
\<close>

theorem howManyTicks_degenerate_domain:
  "(is_fin (howManyTicks this lower upper) \<longleftrightarrow>
      adjustedLog this (d3_min (untransformedDomain this))
      \<noteq> adjustedLog this (d3_max (untransformedDomain this))) \<and>
   (adjustedLog this (d3_min (untransformedDomain this))
    = adjustedLog this (d3_max (untransformedDomain this)) \<longrightarrow>
      (howManyTicks this lower upper = NaN \<longleftrightarrow>
         adjustedLog this upper = adjustedLog this lower \<or> lastRequestedTickCount this = 0) \<and>
      (1 < base this \<and> pivot this = base this \<longrightarrow>
         fst (ticks linearTicks this count) =
           Inr (linearTicks (d3_min (untransformedDomain this), d3_max (untransformedDomain this))
                  NaN)))"
proof -
  let ?mn = "d3_min (untransformedDomain this)"
  let ?mx = "d3_max (untransformedDomain this)"
  have fin: "is_fin (howManyTicks this lower upper)"
    if "adjustedLog this ?mn \<noteq> adjustedLog this ?mx"
    using that by (simp add: howManyTicks_def Let_def js_div_Fin js_mul_is_fin js_ceil_is_fin)
  have a: "\<not> is_fin (howManyTicks this lower upper)"
    if w: "adjustedLog this ?mn = adjustedLog this ?mx"
    by (simp add: howManyTicks_zero_width [OF w] inf_of_def)
  have b: "howManyTicks this lower upper = NaN \<longleftrightarrow>
        adjustedLog this upper = adjustedLog this lower \<or> lastRequestedTickCount this = 0"
    if w: "adjustedLog this ?mn = adjustedLog this ?mx"
    by (simp add: howManyTicks_zero_width [OF w] inf_of_def)
  have c: "fst (ticks linearTicks this count) = Inr (linearTicks (?mn, ?mx) NaN)"
    if w0: "adjustedLog this ?mn = adjustedLog this ?mx"
      and inv: "1 < base this" "pivot this = base this"
  proof -
    define that where "that = (case count of None \<Rightarrow> this | Some c \<Rightarrow> super_ticks this c)"
    have res: "fst (ticks linearTicks this count) = fst (ticks linearTicks that None)"
      by (cases count) (simp_all add: that_def ticks_Some)
    have f: "base that = base this" "pivot that = pivot this"
      "untransformedDomain that = untransformedDomain this"
      by (cases count; simp add: that_def super_ticks_def)+
    have eq: "?mx = ?mn"
    proof (rule ccontr)
      assume "?mx \<noteq> ?mn"
      then have "?mn < ?mx" using d3_min_le_max [of "untransformedDomain this"] by simp
      then show False using adjustedLog_strict_mono [OF inv] w0 by fastforce
    qed
    have w: "adjustedLog that (d3_min (untransformedDomain that))
           = adjustedLog that (d3_max (untransformedDomain that))"
      using w0 by (simp add: f adjustedLog_fields [of that this])
    have h: "howManyTicks that x x = NaN" for x
      by (simp add: howManyTicks_zero_width [OF w])
    have m: "middle x x z = x" for x z :: real
      by (simp add: middle_def)
    have "fst (ticks linearTicks that None) = Inr (linearTicks (?mn, ?mn) NaN)"
      using ticks_None_segments [of that "[]" "[]" linearTicks]
      by (simp add: f m eq logTicks_NaN [OF h] h)
    then show ?thesis by (simp add: res eq)
  qed
  show ?thesis using fin a b c by blast
qed

theorem howManyTicks_degenerate_domain_witness:
  "\<not> is_fin (howManyTicks
     \<lparr>base = 10, pivot = 10, untransformedDomain = (5, 5), lastRequestedTickCount = 10,
      d3Scale = d3_scale_linear, broadcasts = 0\<rparr> 1 2) \<and>
   fst (ticks (\<lambda>d m. if is_fin m then [fst d, snd d] else [])
     \<lparr>base = 10, pivot = 10, untransformedDomain = (5, 5), lastRequestedTickCount = 10,
      d3Scale = d3_scale_linear, broadcasts = 0\<rparr> None) = Inr []"
  using howManyTicks_degenerate_domain
    [of "\<lparr>base = 10, pivot = 10, untransformedDomain = (5, 5), lastRequestedTickCount = 10,
          d3Scale = d3_scale_linear, broadcasts = 0\<rparr>" 1 2
        "\<lambda>d m. if is_fin m then [fst d, snd d] else []" None]
  by (simp add: d3_min_def d3_max_def)

section \<open>Clusters\<close>

text \<open>
  C5: \<open>logTicks\<close> is claimed never to return two equal values. On a new scale of base 2
  with the domain [2, 8] and the default tick count, \<open>logTicks(2, 8)\<close> returns 4 twice:
  the candidate multiples 2, 1.8, 1.6, 1.4, 1.2 are floored to 2, 1, 1, 1, 1, the
  de-duplication leaves the multiples 2 and 1, and the clusters of the powers 3 and 2,
  \<open>[8, 4]\<close> and \<open>[4, 2]\<close>, overlap.
\<close>

theorem logTicks_repeats_a_tick:
  "(case construct (0, 1) (Some 2) of Inl e \<Rightarrow> Inl e
    | Inr this \<Rightarrow> logTicks (setDomain this (2, 8)) 2 8) = Inr [2, 4, 4, 8]"
proof -
  define this :: ModifiedLog where
    "this = \<lparr>base = 2, pivot = 2, untransformedDomain = (0, 1),
             lastRequestedTickCount = 10, d3Scale = d3_scale_linear, broadcasts = 0\<rparr>"
  have c: "construct (0, 1) (Some 2) = Inr this" by (simp add: construct_def this_def)
  define that where "that = setDomain this (2, 8)"
  have f: "base that = 2" "pivot that = 2" "untransformedDomain that = (2, 8)"
    "lastRequestedTickCount that = 10"
    by (simp_all add: that_def setDomain_def Let_def this_def)
  have a2: "adjustedLog that 2 = 1" by (simp add: adjustedLog_def f)
  have a8: "adjustedLog that 8 = 3" by (simp add: adjustedLog_def f ln8)
  have n: "howManyTicks that 2 8 = Fin 10"
    by (simp add: howManyTicks_def Let_def f d3_min_def d3_max_def a2 a8 js_arith)
  have s: "js_floor (js_div (Fin (ln 2)) (Fin (ln 2))) = Fin 1"
    by (simp add: js_arith)
  have e: "js_ceil (js_div (Fin (ln 8)) (Fin (ln 2))) = Fin 3"
    by (simp add: js_arith ln8)
  have k: "\<lceil>(1::real) / 5\<rceil> = 1" by (rule ceiling_unique) simp_all
  have st: "js_neg (js_ceil (js_div (js_sub (Fin 3) (Fin 1)) (Fin 10))) = Fin (- 1)"
    by (simp add: js_arith k)
  have bases: "d3_range (Fin 3) (Fin 1) (Fin (- 1)) = Inr [3, 2]"
    by (simp add: d3_range_finite upt_rec)
  have nm: "js_floor (js_div (Fin 10) (Fin 2)) = Fin 5"
    by (simp add: js_arith)
  have st2: "js_div (js_neg (Fin 1)) (Fin 5) = Fin (- (1 / 5))"
    by (simp add: js_arith)
  have cands: "d3_range (Fin 2) (Fin 1) (Fin (- (1 / 5))) = Inr [2, 9 / 5, 8 / 5, 7 / 5, 6 / 5]"
    by (simp add: d3_range_finite upt_rec)
  have u: "uniqNumbers [2, 1, 1, 1, 1] = [2, 1]"
    by (simp add: uniqNumbers_def)
  have "logTicks that 2 8 = Inr [2, 4, 4, 8]"
    by (simp add: logTicks_def Let_def n f s e st bases nm st2 cands u flatten_def)
  then show ?thesis by (simp add: c that_def)
qed

section \<open>Frame of \<open>ticks\<close>\<close>

text \<open>
  C10: \<open>ticks()\<close> without a count returns the scale as it was (every field, the linear
  adapter and the broadcast counter included), and a second call on the state it leaves
  returns the same result; \<open>ticks(count)\<close> changes \<open>lastRequestedTickCount\<close> to the
  count and nothing else.
\<close>

theorem ticks_without_count_is_pure:
  "snd (ticks linearTicks this None) = this \<and>
   fst (ticks linearTicks (snd (ticks linearTicks this None)) None) = fst (ticks linearTicks this None) \<and>
   snd (ticks linearTicks this (Some c)) = this\<lparr>lastRequestedTickCount := c\<rparr>"
  by (simp add: ticks_None_snd ticks_Some super_ticks_def)

end
